theory Spec2Isabelle
  imports Main
begin

section \<open>Cycle-count reconciler: the two components of the repository\<close>

text \<open>
  The repository holds two versions of one React component:
  \<^item> the single-column component \<^verbatim>\<open>barcode-reconciler-app/src/BarcodeReconciler.jsx\<close>,
    whose master list is a list of instrument numbers and whose scan handler tallies
    whatever was scanned (definitions with the suffix \<open>_single\<close>);
  \<^item> the two-column component \<^verbatim>\<open>part_000\<close>, whose master list is a list of
    \<^verbatim>\<open>"instrument,serial"\<close> strings and whose \<^verbatim>\<open>processNumber\<close> tallies only resolved
    scans (definitions with the suffix \<open>_twocol\<close>, or the source's name where only
    this component has the function).
  The \<^verbatim>\<open>report\<close> callback is the same text in both and is embedded once.

  Modelling decisions.
  \<^item> Strings are \<open>string\<close> (lists of 8-bit characters). \<^verbatim>\<open>trim\<close> removes the six
    ASCII white-space characters, \<^verbatim>\<open>toUpperCase\<close> maps \<open>a\<close>..\<open>z\<close> to \<open>A\<close>..\<open>Z\<close>;
    identifiers outside ASCII are not covered.
  \<^item> The object \<^verbatim>\<open>scannedData\<close> is used as a dictionary from identifier to count. Its
    own properties are an association list in insertion order; a read of a key it does not
    have goes on to \<^verbatim>\<open>Object.prototype\<close>, as in the source. The reordering of
    integer-like keys by \<^verbatim>\<open>Object.keys\<close> is not modelled; no statement below depends on the
    order of keys.
  \<^item> A value of the tally is a number or something that is not a number (see \<open>jsval\<close>).
    Numbers are natural numbers (the source's doubles are exact far beyond any session).
  \<^item> React state setters are applied at once: a handler takes the state and returns the
    new one.
\<close>

subsection \<open>String primitives\<close>

definition is_space :: "char \<Rightarrow> bool" where
  "is_space c = (c \<in> set [CHR 0x09, CHR 0x0A, CHR 0x0B, CHR 0x0C, CHR 0x0D, CHR '' ''])"

text \<open>\<^verbatim>\<open>s.trim()\<close>\<close>

definition trim :: "string \<Rightarrow> string" where
  "trim s = rev (dropWhile is_space (rev (dropWhile is_space s)))"

definition upper_char :: "char \<Rightarrow> char" where
  "upper_char c =
     (case map_of (zip ''abcdefghijklmnopqrstuvwxyz'' ''ABCDEFGHIJKLMNOPQRSTUVWXYZ'') c of
        None \<Rightarrow> c
      | Some u \<Rightarrow> u)"

text \<open>\<^verbatim>\<open>s.toUpperCase()\<close>\<close>

definition toUpperCase :: "string \<Rightarrow> string" where
  "toUpperCase s = map upper_char s"

text \<open>
  \<^verbatim>\<open>s.split(',')\<close>: the pieces between commas; never empty (\<^verbatim>\<open>"".split(',')\<close> is
  \<^verbatim>\<open>[""]\<close>), so the \<open>[]\<close> branch of the case below is never taken.
\<close>

fun split_comma :: "string \<Rightarrow> string list" where
  "split_comma [] = [[]]"
| "split_comma (c # cs) =
     (if c = CHR '','' then [] # split_comma cs
      else (case split_comma cs of
              [] \<Rightarrow> [[c]]
            | w # ws \<Rightarrow> (c # w) # ws))"

subsection \<open>Values of the tally\<close>

text \<open>
  \<^verbatim>\<open>scannedData\<close> is a plain object, so a read \<^verbatim>\<open>scannedData[k]\<close> of a key the object does
  not have itself goes on to \<^verbatim>\<open>Object.prototype\<close>. A value is therefore a number \<open>Num n\<close>
  or \<open>Other\<close>: a function or object inherited from \<^verbatim>\<open>Object.prototype\<close>, or the string
  that \<^verbatim>\<open>+ 1\<close> makes of one. \<open>Other\<close> is truthy, is \<^verbatim>\<open>===\<close> to no number, compares false
  under \<^verbatim>\<open>>\<close> and \<^verbatim>\<open>>=\<close> (it converts to \<^verbatim>\<open>NaN\<close>), and \<^verbatim>\<open>+\<close> with it gives a string
  again. The model does not tell two such values apart.
\<close>

datatype jsval = Num nat | Other

instantiation jsval :: "{comm_monoid_add, numeral, ord}"
begin

definition zero_jsval_def: "(0 :: jsval) = Num 0"

definition one_jsval_def: "(1 :: jsval) = Num 1"

definition plus_jsval_def:
  "a + b = (case a of Num x \<Rightarrow> (case b of Num y \<Rightarrow> Num (x + y) | Other \<Rightarrow> Other) | Other \<Rightarrow> Other)"

definition less_jsval_def:
  "a < b = (case a of Num x \<Rightarrow> (case b of Num y \<Rightarrow> x < y | Other \<Rightarrow> False) | Other \<Rightarrow> False)"

definition less_eq_jsval_def:
  "a \<le> b = (case a of Num x \<Rightarrow> (case b of Num y \<Rightarrow> x \<le> y | Other \<Rightarrow> False) | Other \<Rightarrow> False)"

instance
  by standard (auto simp: plus_jsval_def zero_jsval_def split: jsval.splits)

end

text \<open>
  The names every plain object inherits from \<^verbatim>\<open>Object.prototype\<close> (ECMAScript, with the
  legacy accessors every browser has). Each reads as a function, \<^verbatim>\<open>__proto__\<close> as
  \<^verbatim>\<open>Object.prototype\<close> itself.
\<close>

definition Object_prototype_names :: "string list" where
  "Object_prototype_names =
     [''constructor'', ''hasOwnProperty'', ''isPrototypeOf'', ''propertyIsEnumerable'',
      ''toLocaleString'', ''toString'', ''valueOf'', ''__proto__'',
      ''__defineGetter__'', ''__defineSetter__'', ''__lookupGetter__'', ''__lookupSetter__'']"

subsection \<open>Objects used as dictionaries, and \<^verbatim>\<open>Set\<close>\<close>

text \<open>The own properties of the object, in insertion order.\<close>

type_synonym tally = "(string \<times> jsval) list"

text \<open>\<^verbatim>\<open>Object.keys(o)\<close> and \<^verbatim>\<open>Object.values(o)\<close>\<close>

definition keys :: "tally \<Rightarrow> string list" where
  "keys obj = map fst obj"

definition vals :: "tally \<Rightarrow> jsval list" where
  "vals obj = map snd obj"

text \<open>
  \<^verbatim>\<open>o[k] || 0\<close>. An own value is a positive number or \<open>Other\<close>, both truthy, or the
  number 0, and \<^verbatim>\<open>0 || 0\<close> is 0. A key the object does not have reads the inherited
  member when it is one of the names above, and \<^verbatim>\<open>undefined\<close>, which is falsy,
  otherwise.
\<close>

definition count_or_0 :: "tally \<Rightarrow> string \<Rightarrow> jsval" where
  "count_or_0 obj k =
     (case map_of obj k of
        Some v \<Rightarrow> v
      | None \<Rightarrow> if k \<in> set Object_prototype_names then Other else 0)"

text \<open>\<^verbatim>\<open>{...o, [k]: v}\<close>: an existing key keeps its place, a new key goes last.\<close>

primrec put :: "string \<Rightarrow> jsval \<Rightarrow> tally \<Rightarrow> tally" where
  "put k v [] = [(k, v)]"
| "put k v (p # ps) = (if fst p = k then (k, v) # ps else p # put k v ps)"

text \<open>
  \<^verbatim>\<open>o[k] = v\<close> on an object that got its properties by such assignments only: the same,
  but the key \<^verbatim>\<open>__proto__\<close> goes to the inherited setter, which ignores a number.
\<close>

definition assign :: "string \<Rightarrow> jsval \<Rightarrow> tally \<Rightarrow> tally" where
  "assign k v obj = (if k = ''__proto__'' then obj else put k v obj)"

text \<open>\<^verbatim>\<open>{...prev, [k]: (prev[k] || 0) + 1}\<close>\<close>

definition increment :: "string \<Rightarrow> tally \<Rightarrow> tally" where
  "increment k prev = put k (count_or_0 prev k + 1) prev"

text \<open>\<^verbatim>\<open>[...new Set(xs)]\<close>: the first occurrence of every value, in order.\<close>

definition set_add :: "'a list \<Rightarrow> 'a \<Rightarrow> 'a list" where
  "set_add s x = (if x \<in> set s then s else s @ [x])"

definition new_Set :: "'a list \<Rightarrow> 'a list" where
  "new_Set xs = foldl set_add [] xs"

subsection \<open>The report (the same \<^verbatim>\<open>useMemo\<close> callback in both components)\<close>

record report =
  totalExpected :: nat
  totalScanned :: jsval
  missing :: "string list"
  excess :: "(string \<times> jsval) list"
  short :: tally
  matched :: "string list"

text \<open>
  The body of \<^verbatim>\<open>masterList.forEach(item => ...)\<close> on the three local collections
  \<^verbatim>\<open>missing\<close>, \<^verbatim>\<open>short\<close> and \<^verbatim>\<open>matched\<close> (here \<open>mi\<close>, \<open>sh\<close>, \<open>ma\<close>). An item whose
  count is \<open>Other\<close> passes none of the three tests and goes nowhere.
\<close>

definition classify :: "tally \<Rightarrow> string list \<times> tally \<times> string list \<Rightarrow> string
    \<Rightarrow> string list \<times> tally \<times> string list" where
  "classify sd acc item =
     (case acc of (mi, sh, ma) \<Rightarrow>
        let actualCount = count_or_0 sd item in
        if actualCount = 0 then (mi @ [item], sh, ma)
        else if actualCount = 1 then (mi, sh, ma @ [item])
        else if actualCount > 1 then (mi, assign item actualCount sh, ma)
        else (mi, sh, ma))"

text \<open>
  The body of \<^verbatim>\<open>Object.keys(scannedData).forEach(item => ...)\<close> on the local array
  \<^verbatim>\<open>excess\<close> (here \<open>ex\<close>); \<^verbatim>\<open>scannedData[item]\<close> is read without a default, and
  is always there for a key of the object.
\<close>

definition collect_excess :: "string list \<Rightarrow> tally \<Rightarrow> (string \<times> jsval) list \<Rightarrow> string
    \<Rightarrow> (string \<times> jsval) list" where
  "collect_excess ml sd ex item =
     (if item \<notin> set ml
      then (case map_of sd item of
              None \<Rightarrow> ex
            | Some c \<Rightarrow> ex @ [(item, c)])
      else ex)"

text \<open>The callback itself, from \<^verbatim>\<open>masterList\<close> (\<open>ml\<close>) and \<^verbatim>\<open>scannedData\<close> (\<open>sd\<close>).\<close>

definition report :: "string list \<Rightarrow> tally \<Rightarrow> report" where
  "report ml sd =
     (case foldl (classify sd) ([], [], []) ml of
        (mi, sh, ma) \<Rightarrow>
          \<lparr> totalExpected = length ml,
            totalScanned = foldl (\<lambda>sum count. sum + count) 0 (vals sd),
            missing = mi,
            excess = foldl (collect_excess ml sd) [] (keys sd),
            short = sh,
            matched = ma \<rparr>)"

subsection \<open>Component state\<close>

text \<open>
  \<^verbatim>\<open>useState([])\<close> for the master list and \<^verbatim>\<open>useState({})\<close> for the tally; the two-column
  component also keeps the text of its manual-entry field in \<^verbatim>\<open>manualNumber\<close>.
\<close>

record session =
  masterList :: "string list"
  scannedData :: tally

record session_twocol = session +
  manualNumber :: string

definition initial_single :: session where
  "initial_single = \<lparr> masterList = [], scannedData = [] \<rparr>"

definition initial_twocol :: session_twocol where
  "initial_twocol = \<lparr> masterList = [], scannedData = [], manualNumber = [] \<rparr>"

text \<open>A \<^verbatim>\<open>keydown\<close> event on the scan field: the key and the text in the field.\<close>

record key_event =
  key :: string
  target_value :: string

subsection \<open>The single-column component\<close>

text \<open>
  The \<^verbatim>\<open>complete\<close> callback of \<^verbatim>\<open>parseMasterList\<close> on the parsed rows \<^verbatim>\<open>results.data\<close>:
  the value it hands to \<^verbatim>\<open>setMasterList\<close>.
\<close>

definition parseMasterList_single :: "string list list \<Rightarrow> string list" where
  "parseMasterList_single data =
     (let numbers = filter (\<lambda>item. item \<noteq> []) (map trim (concat data))
      in new_Set numbers)"

text \<open>
  \<^verbatim>\<open>handleScan\<close>: returns the new state and the text left in the scan field. There is
  no look-up in the master list and no result value.
\<close>

definition handleScan_single :: "key_event \<Rightarrow> session \<Rightarrow> session \<times> string" where
  "handleScan_single event s =
     (if key event = ''Enter'' \<or> key event = ''Tab'' then
        let scannedNumber = trim (target_value event) in
        if scannedNumber \<noteq> []
        then (s\<lparr>scannedData := increment scannedNumber (scannedData s)\<rparr>, [])
        else (s, target_value event)
      else (s, target_value event))"

subsection \<open>The two-column component\<close>

text \<open>
  The row mapping of \<^verbatim>\<open>parseMasterList\<close>: \<open>None\<close> is the source's \<^verbatim>\<open>null\<close> (a row with
  no field).
\<close>

fun row_entry :: "string list \<Rightarrow> string option" where
  "row_entry (f0 # f1 # rest) = Some (trim f0 @ '','' @ trim f1)"
| "row_entry [f0] = Some (trim f0 @ '','')"
| "row_entry [] = None"

text \<open>\<^verbatim>\<open>item.split(',')[0]\<close>\<close>

definition split0 :: "string \<Rightarrow> string" where
  "split0 item = (case split_comma item of [] \<Rightarrow> [] | w # ws \<Rightarrow> w)"

text \<open>The filter \<^verbatim>\<open>item => item && item.split(',')[0]\<close>.\<close>

definition keep_entry :: "string option \<Rightarrow> bool" where
  "keep_entry e = (case e of None \<Rightarrow> False | Some item \<Rightarrow> item \<noteq> [] \<and> split0 item \<noteq> [])"

definition parseMasterList_twocol :: "string list list \<Rightarrow> string list" where
  "parseMasterList_twocol data =
     (let processedData = map the (filter keep_entry (map row_entry data))
      in new_Set processedData)"

text \<open>
  The predicate of \<^verbatim>\<open>masterList.find\<close> in \<^verbatim>\<open>processNumber\<close>. The destructuring
  \<^verbatim>\<open>[instrNum, serialNum]\<close> leaves \<^verbatim>\<open>serialNum\<close> undefined when there is no second piece,
  and \<^verbatim>\<open>===\<close> with \<^verbatim>\<open>undefined\<close> is false.
\<close>

definition item_matches :: "string \<Rightarrow> string \<Rightarrow> bool" where
  "item_matches normalizedNumber item =
     (case map (\<lambda>n. toUpperCase (trim n)) (split_comma item) of
        [] \<Rightarrow> False
      | [instrNum] \<Rightarrow> normalizedNumber = instrNum
      | instrNum # serialNum # rest \<Rightarrow>
          normalizedNumber = instrNum \<or> normalizedNumber = serialNum)"

text \<open>
  What \<^verbatim>\<open>processNumber\<close> returns: \<^verbatim>\<open>undefined\<close> from the bare \<^verbatim>\<open>return\<close>, \<^verbatim>\<open>true\<close> or
  \<^verbatim>\<open>false\<close>. The callers test it with \<^verbatim>\<open>if (...)\<close>.
\<close>

datatype outcome = Undefined | JTrue | JFalse

definition truthy :: "outcome \<Rightarrow> bool" where
  "truthy r = (r = JTrue)"

text \<open>
  \<^verbatim>\<open>processNumber\<close>. \<^verbatim>\<open>find\<close> gives the first matching item; \<^verbatim>\<open>if (match)\<close> is
  false for \<^verbatim>\<open>undefined\<close> and for the empty string.
\<close>

definition processNumber :: "string \<Rightarrow> session_twocol \<Rightarrow> outcome \<times> session_twocol" where
  "processNumber number s =
     (if number = [] then (Undefined, s)
      else
        let normalizedNumber = toUpperCase (trim number) in
        case find (item_matches normalizedNumber) (masterList s) of
          None \<Rightarrow> (JFalse, s)
        | Some match \<Rightarrow>
            if match = [] then (JFalse, s)
            else
              let instrumentNumber = trim (split0 match) in
              (JTrue, s\<lparr>scannedData := increment instrumentNumber (scannedData s)\<rparr>))"

text \<open>
  The three callers. Each returns the new state; \<^verbatim>\<open>handleScan\<close> also the text left in
  the scan field; the Boolean says whether the "not found" alert was shown.
\<close>

definition handleScan_twocol :: "key_event \<Rightarrow> session_twocol \<Rightarrow> session_twocol \<times> string \<times> bool" where
  "handleScan_twocol event s =
     (if key event = ''Enter'' \<or> key event = ''Tab'' then
        let scannedNumber = trim (target_value event) in
        case processNumber scannedNumber s of
          (r, s') \<Rightarrow> if truthy r then (s', [], False) else (s', target_value event, True)
      else (s, target_value event, False))"

definition handleManualSubmit :: "session_twocol \<Rightarrow> session_twocol \<times> bool" where
  "handleManualSubmit s =
     (case processNumber (manualNumber s) s of
        (r, s') \<Rightarrow> if truthy r then (s'\<lparr>manualNumber := []\<rparr>, False) else (s', True))"

definition onScanSuccess :: "string \<Rightarrow> session_twocol \<Rightarrow> session_twocol" where
  "onScanSuccess decodedText s = snd (processNumber decodedText s)"

text \<open>
  The user actions of a session of the two-column component, and the state after one
  action and after a list of them.
\<close>

datatype action =
  Upload "string list list"
| KeyDown key_event
| TypeManual string
| SubmitManual
| CameraScan string

fun act :: "session_twocol \<Rightarrow> action \<Rightarrow> session_twocol" where
  "act s (Upload data) = s\<lparr>masterList := parseMasterList_twocol data\<rparr>"
| "act s (KeyDown event) = fst (handleScan_twocol event s)"
| "act s (TypeManual v) = s\<lparr>manualNumber := v\<rparr>"
| "act s SubmitManual = fst (handleManualSubmit s)"
| "act s (CameraScan decodedText) = onScanSuccess decodedText s"

definition run :: "session_twocol \<Rightarrow> action list \<Rightarrow> session_twocol" where
  "run s actions = foldl act s actions"

text \<open>The same for the single-column component, which has the upload and the scan field.\<close>

datatype action_single =
  Upload_single "string list list"
| KeyDown_single key_event

fun act_single :: "session \<Rightarrow> action_single \<Rightarrow> session" where
  "act_single s (Upload_single data) = s\<lparr>masterList := parseMasterList_single data\<rparr>"
| "act_single s (KeyDown_single event) = fst (handleScan_single event s)"

definition run_single :: "session \<Rightarrow> action_single list \<Rightarrow> session" where
  "run_single s actions = foldl act_single s actions"

section \<open>Basic facts\<close>

subsection \<open>Arithmetic and comparison of values\<close>

lemma Num_plus_Num: "Num a + Num b = Num (a + b)"
  by (simp add: plus_jsval_def)

lemma Other_plus: "Other + v = Other" and plus_Other: "v + Other = Other"
  by (simp_all add: plus_jsval_def split: jsval.splits)

lemma numeral_jsval: "(numeral n :: jsval) = Num (numeral n)"
proof (induction n)
  case One
  show ?case by (simp only: numeral.simps one_jsval_def)
next
  case (Bit0 n)
  then show ?case by (simp only: numeral.simps Num_plus_Num)
next
  case (Bit1 n)
  then show ?case by (simp only: numeral.simps Num_plus_Num one_jsval_def)
qed

lemma Num_less_Num: "Num a < Num b \<longleftrightarrow> a < b"
  by (simp add: less_jsval_def)

lemma not_Other_less: "\<not> Other < v" and not_less_Other: "\<not> v < Other"
  by (simp_all add: less_jsval_def split: jsval.splits)

lemmas jsval_simps = zero_jsval_def one_jsval_def numeral_jsval Num_plus_Num Other_plus plus_Other
  Num_less_Num not_Other_less not_less_Other

lemma zero_one_jsval:
  "(0 :: jsval) \<noteq> 1" "(1 :: jsval) \<noteq> 0" "\<not> (1 :: jsval) < 1" "\<not> (0 :: jsval) > 1"
  by (simp_all add: jsval_simps)

lemma plus_one_not_zero: "v + 1 \<noteq> (0 :: jsval)"
  by (cases v) (simp_all add: jsval_simps)

subsection \<open>Dictionaries and \<^verbatim>\<open>Set\<close>\<close>

lemma map_of_put: "map_of (put k v al) = (map_of al)(k \<mapsto> v)"
  by (induction al) (auto simp: fun_eq_iff)

lemma keys_put: "keys (put k v al) = (if k \<in> set (keys al) then keys al else keys al @ [k])"
  by (induction al) (auto simp: keys_def)

lemma distinct_keys_put: "distinct (keys al) \<Longrightarrow> distinct (keys (put k v al))"
  by (simp add: keys_put)

lemma count_or_0_increment:
  "count_or_0 (increment k sd) k' = (if k' = k then count_or_0 sd k + 1 else count_or_0 sd k')"
  by (simp add: increment_def count_or_0_def map_of_put)

lemma map_of_increment:
  "map_of (increment k sd) k' = (if k' = k then Some (count_or_0 sd k + 1) else map_of sd k')"
  by (simp add: increment_def map_of_put)

lemma keys_increment: "set (keys (increment k sd)) = insert k (set (keys sd))"
  by (auto simp: increment_def keys_put)

lemma distinct_keys_increment: "distinct (keys sd) \<Longrightarrow> distinct (keys (increment k sd))"
  by (simp add: increment_def distinct_keys_put)

lemma sum_vals_put_own:
  "map_of al k = Some c \<Longrightarrow> sum_list (vals (put k (c + 1) al)) = sum_list (vals al) + 1"
  by (induction al) (auto simp: vals_def ac_simps)

lemma sum_vals_put_new:
  "map_of al k = None \<Longrightarrow> sum_list (vals (put k v al)) = sum_list (vals al) + v"
  by (induction al) (auto simp: vals_def ac_simps)

lemma sum_vals_increment:
  assumes "k \<in> set (keys sd) \<or> k \<notin> set Object_prototype_names"
  shows "sum_list (vals (increment k sd)) = sum_list (vals sd) + 1"
proof (cases "map_of sd k")
  case None
  then have "k \<notin> set (keys sd)" by (simp add: keys_def map_of_eq_None_iff)
  with assms None show ?thesis
    by (simp add: increment_def count_or_0_def sum_vals_put_new)
next
  case (Some c)
  then show ?thesis by (simp add: increment_def count_or_0_def sum_vals_put_own)
qed

lemma map_of_increment_mono:
  "map_of sd k = Some (Num c) \<Longrightarrow> \<exists>c'. c \<le> c' \<and> map_of (increment k' sd) k = Some (Num c')"
  by (auto simp: map_of_increment count_or_0_def jsval_simps)

lemma map_of_increment_Other:
  "map_of sd k = Some Other \<Longrightarrow> map_of (increment k' sd) k = Some Other"
  by (auto simp: map_of_increment count_or_0_def jsval_simps)

lemma foldl_plus: "foldl (\<lambda>sum count. sum + count) a (ns :: jsval list) = a + sum_list ns"
  by (induction ns arbitrary: a) (auto simp: ac_simps)

lemma foldl_classify:
  "foldl (classify sd) (mi, sh, ma) ml =
     (mi @ filter (\<lambda>i. count_or_0 sd i = 0) ml,
      foldl (\<lambda>sh i. assign i (count_or_0 sd i) sh) sh (filter (\<lambda>i. count_or_0 sd i > 1) ml),
      ma @ filter (\<lambda>i. count_or_0 sd i = 1) ml)"
  by (induction ml arbitrary: mi sh ma) (auto simp: classify_def Let_def zero_one_jsval)

lemma keys_foldl_assign:
  "distinct xs \<Longrightarrow> set xs \<inter> set (keys sh) = {} \<Longrightarrow>
   keys (foldl (\<lambda>sh i. assign i (f i) sh) sh xs) = keys sh @ filter (\<lambda>i. i \<noteq> ''__proto__'') xs"
  by (induction xs arbitrary: sh) (auto simp: keys_put assign_def)

lemma set_keys_foldl_assign:
  "set (keys (foldl (\<lambda>sh i. assign i (f i) sh) sh xs))
     = set (keys sh) \<union> {i \<in> set xs. i \<noteq> ''__proto__''}"
  by (induction xs arbitrary: sh) (auto simp: keys_put assign_def)

lemma map_of_foldl_assign:
  "k \<noteq> ''__proto__'' \<Longrightarrow> map_of (foldl (\<lambda>sh i. assign i (f i) sh) sh xs) k =
     (if k \<in> set xs then Some (f k) else map_of sh k)"
  by (induction xs arbitrary: sh) (auto simp: map_of_put assign_def)

lemma foldl_collect_excess:
  "foldl (collect_excess ml sd) ex ks =
     ex @ concat (map (\<lambda>k. if k \<notin> set ml then (case map_of sd k of None \<Rightarrow> [] | Some c \<Rightarrow> [(k, c)]) else []) ks)"
  by (induction ks arbitrary: ex) (auto simp: collect_excess_def split: option.splits)

lemma foldl_set_add: "set (foldl set_add acc xs) = set acc \<union> set xs"
  by (induction xs arbitrary: acc) (auto simp: set_add_def)

lemma distinct_foldl_set_add: "distinct acc \<Longrightarrow> distinct (foldl set_add acc xs)"
  by (induction xs arbitrary: acc) (auto simp: set_add_def)

lemma set_new_Set: "set (new_Set xs) = set xs"
  by (simp add: new_Set_def foldl_set_add)

lemma distinct_new_Set: "distinct (new_Set xs)"
  by (simp add: new_Set_def distinct_foldl_set_add)

lemma new_Set_repeat: "x \<in> set xs \<Longrightarrow> new_Set (xs @ x # ys) = new_Set (xs @ ys)"
  by (simp add: new_Set_def set_add_def foldl_set_add)

subsection \<open>Strings\<close>

lemma dropWhile_rev_keeps_head:
  assumes "ys \<noteq> []" and "\<not> P (hd ys)"
  shows "dropWhile P (rev (dropWhile P (rev ys))) = rev (dropWhile P (rev ys))"
proof -
  from assms obtain y ys' where ys: "ys = y # ys'" and y: "\<not> P y"
    by (cases ys) auto
  have "\<exists>zs. dropWhile P (rev ys) = zs @ [y]"
    using y by (cases "\<forall>x\<in>set (rev ys'). P x") (auto simp: ys dropWhile_append)
  then obtain zs where "dropWhile P (rev ys) = zs @ [y]" ..
  then show ?thesis using y by simp
qed

lemma trim_trim: "trim (trim s) = trim s"
proof (cases "dropWhile is_space s = []")
  case True
  have "trim s = []" unfolding trim_def True by simp
  then show ?thesis by (simp add: trim_def [of "[]"])
next
  case False
  then have "\<not> is_space (hd (dropWhile is_space s))"
    by (simp add: hd_dropWhile)
  with False have "dropWhile is_space (trim s) = trim s"
    unfolding trim_def by (rule dropWhile_rev_keeps_head)
  then show ?thesis by (simp add: trim_def)
qed


lemma split_comma_nonempty: "split_comma s \<noteq> []"
  by (induction s) (auto split: list.splits)

lemma split_comma_no_comma: "CHR '','' \<notin> set s \<Longrightarrow> split_comma s = [s]"
  by (induction s) auto

lemma split_comma_append:
  "CHR '','' \<notin> set p \<Longrightarrow> split_comma (p @ CHR '','' # q) = p # split_comma q"
  by (induction p) auto

lemma split0_no_comma: "CHR '','' \<notin> set (split0 s)"
  by (induction s) (auto simp: split0_def split: list.splits)

lemma set_trim_subset: "set (trim s) \<subseteq> set s"
proof -
  have "set (trim s) \<subseteq> set (dropWhile is_space s)"
    unfolding trim_def using set_dropWhileD by fastforce
  also have "\<dots> \<subseteq> set s" using set_dropWhileD by fastforce
  finally show ?thesis .
qed

lemma item_matches_instr: "item_matches (toUpperCase (trim (split0 item))) item"
  using split_comma_nonempty [of item]
  by (auto simp: item_matches_def split0_def split: list.splits)

subsection \<open>The fields of the report\<close>

lemma report_missing: "missing (report ml sd) = filter (\<lambda>i. count_or_0 sd i = 0) ml"
  by (simp add: report_def foldl_classify)

lemma report_matched: "matched (report ml sd) = filter (\<lambda>i. count_or_0 sd i = 1) ml"
  by (simp add: report_def foldl_classify)

lemma report_short:
  "short (report ml sd) =
     foldl (\<lambda>sh i. assign i (count_or_0 sd i) sh) [] (filter (\<lambda>i. count_or_0 sd i > 1) ml)"
  by (simp add: report_def foldl_classify)

lemma report_excess:
  "excess (report ml sd) =
     concat (map (\<lambda>k. if k \<notin> set ml then (case map_of sd k of None \<Rightarrow> [] | Some c \<Rightarrow> [(k, c)]) else [])
       (keys sd))"
  by (simp add: report_def foldl_classify foldl_collect_excess)

lemma report_totalScanned: "totalScanned (report ml sd) = sum_list (vals sd)"
  by (simp add: report_def foldl_classify foldl_plus)

lemma report_totalExpected: "totalExpected (report ml sd) = length ml"
  by (simp add: report_def foldl_classify)

lemma set_keys_report_short:
  "set (keys (short (report ml sd))) = {i \<in> set ml. count_or_0 sd i > 1 \<and> i \<noteq> ''__proto__''}"
  unfolding report_short set_keys_foldl_assign by (auto simp: keys_def)

lemma keys_report_short:
  assumes "distinct ml" and "''__proto__'' \<notin> set ml"
  shows "keys (short (report ml sd)) = filter (\<lambda>i. count_or_0 sd i > 1) ml"
proof -
  from assms(1) have "distinct (filter (\<lambda>i. count_or_0 sd i > 1) ml)" by simp
  then have "keys (foldl (\<lambda>sh i. assign i (count_or_0 sd i) sh) []
                 (filter (\<lambda>i. count_or_0 sd i > 1) ml))
             = keys [] @ filter (\<lambda>i. i \<noteq> ''__proto__'') (filter (\<lambda>i. count_or_0 sd i > 1) ml)"
    by (rule keys_foldl_assign) (simp add: keys_def)
  moreover have "filter (\<lambda>i. i \<noteq> ''__proto__'') (filter (\<lambda>i. count_or_0 sd i > 1) ml)
      = filter (\<lambda>i. count_or_0 sd i > 1) ml"
    unfolding filter_id_conv using assms(2) by auto
  ultimately show ?thesis by (simp add: report_short keys_def)
qed

lemma jsval_trichotomy: "v \<noteq> Other \<Longrightarrow> (v = 0 \<and> v \<noteq> 1 \<and> \<not> v > 1) \<or> (v \<noteq> 0 \<and> v = 1 \<and> \<not> v > 1)
    \<or> (v \<noteq> 0 \<and> v \<noteq> 1 \<and> v > 1)"
  by (cases v) (auto simp: jsval_simps)

lemma length_three_filters:
  "\<forall>i \<in> set xs. f i \<noteq> Other \<Longrightarrow>
   length (filter (\<lambda>i. f i = (0 :: jsval)) xs) + length (filter (\<lambda>i. f i = 1) xs)
     + length (filter (\<lambda>i. f i > 1) xs) = length xs"
proof (induction xs)
  case Nil
  then show ?case by simp
next
  case (Cons x xs)
  then have "f x \<noteq> Other" by simp
  from jsval_trichotomy [OF this] Cons show ?case by auto
qed

lemma count_of_plain_item:
  "item \<notin> set Object_prototype_names \<Longrightarrow> Other \<notin> set (vals sd) \<Longrightarrow> count_or_0 sd item \<noteq> Other"
  by (force simp: count_or_0_def vals_def jsval_simps split: option.splits dest!: map_of_SomeD)

lemma distinct_parseMasterList_single: "distinct (parseMasterList_single data)"
  by (simp add: parseMasterList_single_def distinct_new_Set)

lemma distinct_parseMasterList_twocol: "distinct (parseMasterList_twocol data)"
  by (simp add: parseMasterList_twocol_def distinct_new_Set)

lemma partition_distinct:
  assumes "distinct ml" and "\<forall>i \<in> set ml. count_or_0 sd i \<noteq> Other" and "''__proto__'' \<notin> set ml"
  shows "set (missing (report ml sd)) \<union> set (matched (report ml sd))
           \<union> set (keys (short (report ml sd))) = set ml
       \<and> distinct (missing (report ml sd) @ matched (report ml sd) @ keys (short (report ml sd)))
       \<and> length (missing (report ml sd)) + length (matched (report ml sd))
           + length (short (report ml sd)) = totalExpected (report ml sd)"
proof -
  have k: "keys (short (report ml sd)) = filter (\<lambda>i. count_or_0 sd i > 1) ml"
    using assms(1,3) by (rule keys_report_short)
  have l: "length (short (report ml sd)) = length (keys (short (report ml sd)))"
    by (simp add: keys_def)
  have t: "(count_or_0 sd i = 0 \<and> count_or_0 sd i \<noteq> 1 \<and> \<not> count_or_0 sd i > 1)
      \<or> (count_or_0 sd i \<noteq> 0 \<and> count_or_0 sd i = 1 \<and> \<not> count_or_0 sd i > 1)
      \<or> (count_or_0 sd i \<noteq> 0 \<and> count_or_0 sd i \<noteq> 1 \<and> count_or_0 sd i > 1)"
    if "i \<in> set ml" for i
    using assms(2) that by (intro jsval_trichotomy) simp
  have 1: "set (missing (report ml sd)) \<union> set (matched (report ml sd))
           \<union> set (keys (short (report ml sd))) = set ml"
    unfolding k report_missing report_matched using t by auto
  have 2: "distinct (missing (report ml sd) @ matched (report ml sd) @ keys (short (report ml sd)))"
    unfolding k report_missing report_matched using assms(1) t by auto
  have 3: "length (missing (report ml sd)) + length (matched (report ml sd))
           + length (short (report ml sd)) = totalExpected (report ml sd)"
    unfolding l k report_missing report_matched report_totalExpected
    using assms(2) by (rule length_three_filters)
  from 1 2 3 show ?thesis by blast
qed




subsection \<open>One action changes the tally by at most one increment\<close>

lemma processNumber_cases:
  "snd (processNumber number s) = s \<or>
   (\<exists>k. snd (processNumber number s) = s\<lparr>scannedData := increment k (scannedData s)\<rparr>)"
  by (auto simp: processNumber_def Let_def split: option.splits)

lemma act_cases:
  "scannedData (act s a) = scannedData s \<or>
   (\<exists>k. scannedData (act s a) = increment k (scannedData s))"
proof (cases a)
  case (Upload data)
  then show ?thesis by simp
next
  case (KeyDown event)
  show ?thesis
    using processNumber_cases [of "trim (target_value event)" s]
    by (auto simp: KeyDown handleScan_twocol_def Let_def split: prod.splits)
next
  case (TypeManual v)
  then show ?thesis by simp
next
  case SubmitManual
  show ?thesis
    using processNumber_cases [of "manualNumber s" s]
    by (auto simp: SubmitManual handleManualSubmit_def split: prod.splits)
next
  case (CameraScan decodedText)
  show ?thesis
    using processNumber_cases [of decodedText s]
    by (auto simp: CameraScan onScanSuccess_def)
qed

lemma act_single_cases:
  "scannedData (act_single s a) = scannedData s \<or>
   (\<exists>k. scannedData (act_single s a) = increment k (scannedData s))"
  by (cases a) (auto simp: handleScan_single_def Let_def)

lemma run_mono:
  "map_of (scannedData s) k = Some (Num c) \<Longrightarrow>
   \<exists>c'. c \<le> c' \<and> map_of (scannedData (run s actions)) k = Some (Num c')"
proof (induction actions arbitrary: s c)
  case Nil
  then show ?case by (simp add: run_def)
next
  case (Cons a actions)
  from act_cases [of s a] Cons.prems
  obtain c1 where c1: "c \<le> c1" "map_of (scannedData (act s a)) k = Some (Num c1)"
    using map_of_increment_mono by fastforce
  from Cons.IH [OF c1(2)] obtain c' where "c1 \<le> c'"
    "map_of (scannedData (run (act s a) actions)) k = Some (Num c')" by blast
  with c1(1) show ?case by (auto simp: run_def intro: order_trans)
qed

lemma run_single_mono:
  "map_of (scannedData s) k = Some (Num c) \<Longrightarrow>
   \<exists>c'. c \<le> c' \<and> map_of (scannedData (run_single s actions)) k = Some (Num c')"
proof (induction actions arbitrary: s c)
  case Nil
  then show ?case by (simp add: run_single_def)
next
  case (Cons a actions)
  from act_single_cases [of s a] Cons.prems
  obtain c1 where c1: "c \<le> c1" "map_of (scannedData (act_single s a)) k = Some (Num c1)"
    using map_of_increment_mono by fastforce
  from Cons.IH [OF c1(2)] obtain c' where "c1 \<le> c'"
    "map_of (scannedData (run_single (act_single s a) actions)) k = Some (Num c')" by blast
  with c1(1) show ?case by (auto simp: run_single_def intro: order_trans)
qed

lemma distinct_keys_run:
  "distinct (keys (scannedData s)) \<Longrightarrow> distinct (keys (scannedData (run s actions)))"
proof (induction actions arbitrary: s)
  case Nil
  then show ?case by (simp add: run_def)
next
  case (Cons a actions)
  from act_cases [of s a] Cons.prems have "distinct (keys (scannedData (act s a)))"
    by (auto simp: distinct_keys_increment)
  from Cons.IH [OF this] show ?case by (simp add: run_def)
qed

lemma distinct_keys_run_single:
  "distinct (keys (scannedData s)) \<Longrightarrow> distinct (keys (scannedData (run_single s actions)))"
proof (induction actions arbitrary: s)
  case Nil
  then show ?case by (simp add: run_single_def)
next
  case (Cons a actions)
  from act_single_cases [of s a] Cons.prems have "distinct (keys (scannedData (act_single s a)))"
    by (auto simp: distinct_keys_increment)
  from Cons.IH [OF this] show ?case by (simp add: run_single_def)
qed

subsection \<open>Scans that match no item, and where tally keys come from\<close>

lemma processNumber_no_match:
  assumes "\<forall>item \<in> set (masterList s). \<not> item_matches (toUpperCase (trim number)) item"
  shows "processNumber number s = (if number = [] then Undefined else JFalse, s)"
proof -
  from assms have "find (item_matches (toUpperCase (trim number))) (masterList s) = None"
    by (simp add: find_None_iff)
  then show ?thesis by (simp add: processNumber_def)
qed

lemma processNumber_key:
  "set (keys (scannedData (snd (processNumber number s))))
     \<subseteq> set (keys (scannedData s)) \<union> (\<lambda>item. trim (split0 item)) ` set (masterList s)"
  by (auto simp: processNumber_def Let_def keys_increment find_Some_iff split: option.splits)

lemma processNumber_masterList: "masterList (snd (processNumber number s)) = masterList s"
  using processNumber_cases [of number s] by auto

lemma act_keys:
  assumes "\<forall>data. a \<noteq> Upload data"
  shows "masterList (act s a) = masterList s \<and>
     set (keys (scannedData (act s a)))
       \<subseteq> set (keys (scannedData s)) \<union> (\<lambda>item. trim (split0 item)) ` set (masterList s)"
proof (cases a)
  case (Upload data)
  with assms show ?thesis by simp
next
  case (KeyDown event)
  show ?thesis
    using processNumber_key [of "trim (target_value event)" s]
      processNumber_masterList [of "trim (target_value event)" s]
    by (auto simp: KeyDown handleScan_twocol_def Let_def split: prod.splits)
next
  case (TypeManual v)
  then show ?thesis by simp
next
  case SubmitManual
  show ?thesis
    using processNumber_key [of "manualNumber s" s] processNumber_masterList [of "manualNumber s" s]
    by (auto simp: SubmitManual handleManualSubmit_def split: prod.splits)
next
  case (CameraScan decodedText)
  show ?thesis
    using processNumber_key [of decodedText s] processNumber_masterList [of decodedText s]
    by (auto simp: CameraScan onScanSuccess_def)
qed

lemma run_keys:
  assumes "\<forall>data. Upload data \<notin> set actions"
    and "set (keys (scannedData s)) \<subseteq> (\<lambda>item. trim (split0 item)) ` set (masterList s)"
  shows "masterList (run s actions) = masterList s \<and>
     set (keys (scannedData (run s actions))) \<subseteq> (\<lambda>item. trim (split0 item)) ` set (masterList s)"
  using assms
proof (induction actions arbitrary: s)
  case Nil
  then show ?case by (simp add: run_def)
next
  case (Cons a actions)
  from Cons.prems(1) have a: "\<forall>data. a \<noteq> Upload data" by auto
  from act_keys [OF a, of s] Cons.prems(2)
  have 1: "masterList (act s a) = masterList s"
    and 2: "set (keys (scannedData (act s a)))
       \<subseteq> (\<lambda>item. trim (split0 item)) ` set (masterList (act s a))"
    by auto
  from Cons.prems(1) have 3: "\<forall>data. Upload data \<notin> set actions" by auto
  from Cons.IH [OF 3 2] 1 show ?case by (simp add: run_def)
qed

lemma rejected_not_instrument:
  assumes "\<forall>item \<in> set ml. \<not> item_matches (toUpperCase (trim number)) item"
  shows "number \<notin> (\<lambda>item. trim (split0 item)) ` set ml"
proof
  assume "number \<in> (\<lambda>item. trim (split0 item)) ` set ml"
  then obtain item where i: "item \<in> set ml" and n: "number = trim (split0 item)" by auto
  have "item_matches (toUpperCase (trim number)) item"
    unfolding n trim_trim by (rule item_matches_instr)
  with assms i show False by simp
qed

lemma count_not_key:
  "k \<notin> set (keys sd) \<Longrightarrow> count_or_0 sd k = 0 \<or> count_or_0 sd k = Other"
  by (auto simp: count_or_0_def keys_def map_of_eq_None_iff [symmetric] split: option.splits)

lemma report_keys_scanned:
  assumes "k \<notin> set (keys sd)"
  shows "k \<notin> fst ` set (excess (report ml sd)) \<and> k \<notin> set (matched (report ml sd))
     \<and> k \<notin> set (keys (short (report ml sd)))"
proof -
  from count_not_key [OF assms]
  have c: "count_or_0 sd k \<noteq> 1 \<and> \<not> count_or_0 sd k > 1"
    by (auto simp: jsval_simps)
  have "fst ` set (excess (report ml sd)) \<subseteq> set (keys sd)"
    by (auto simp: report_excess split: if_splits option.splits)
  with assms have 1: "k \<notin> fst ` set (excess (report ml sd))" by auto
  have 2: "k \<notin> set (matched (report ml sd))" using c by (simp add: report_matched)
  have 3: "k \<notin> set (keys (short (report ml sd)))"
    using c by (simp add: set_keys_report_short)
  from 1 2 3 show ?thesis by blast
qed

lemma excess_member:
  assumes "map_of sd k = Some c" and "k \<notin> set ml"
  shows "(k, c) \<in> set (excess (report ml sd))"
proof -
  from assms(1) have "k \<in> set (keys sd)"
    by (force simp: keys_def dest: map_of_SomeD)
  with assms show ?thesis
    by (auto simp: report_excess intro!: bexI [of _ k])
qed

subsection \<open>Matching an \<^verbatim>\<open>"instrument,serial"\<close> item\<close>

lemma find_skip: "\<forall>e \<in> set pre. \<not> P e \<Longrightarrow> find P (pre @ ys) = find P ys"
  by (induction pre) auto

lemma item_matches_pair:
  assumes "CHR '','' \<notin> set p" and "CHR '','' \<notin> set q"
  shows "item_matches n (p @ CHR '','' # q) \<longleftrightarrow> n = toUpperCase (trim p) \<or> n = toUpperCase (trim q)"
  using assms by (simp add: item_matches_def split_comma_append split_comma_no_comma)

lemma split0_pair: "CHR '','' \<notin> set p \<Longrightarrow> split0 (p @ CHR '','' # q) = p"
  by (simp add: split0_def split_comma_append)

subsection \<open>The master list of the two-column component\<close>

lemma new_Set_snoc:
  "new_Set (xs @ [x]) = (if x \<in> set (new_Set xs) then new_Set xs else new_Set xs @ [x])"
  by (simp add: new_Set_def set_add_def)

lemma parseMasterList_twocol_Nil: "parseMasterList_twocol [] = []"
  by (simp add: parseMasterList_twocol_def new_Set_def)

lemma parseMasterList_twocol_snoc:
  "parseMasterList_twocol (data @ [row]) =
     (case row_entry row of
        None \<Rightarrow> parseMasterList_twocol data
      | Some e \<Rightarrow>
          if split0 e \<noteq> [] \<and> e \<notin> set (parseMasterList_twocol data)
          then parseMasterList_twocol data @ [e]
          else parseMasterList_twocol data)"
  by (auto simp: parseMasterList_twocol_def keep_entry_def new_Set_snoc split0_def
      split: option.splits)

lemma set_parseMasterList_twocol:
  "set (parseMasterList_twocol data) = {e. \<exists>row \<in> set data. row_entry row = Some e \<and> split0 e \<noteq> []}"
  by (induction data rule: rev_induct)
    (auto simp: parseMasterList_twocol_Nil parseMasterList_twocol_snoc split: option.splits)

lemma empty_primary_dropped: "trim f0 = [] \<Longrightarrow> \<not> keep_entry (row_entry (f0 # fs))"
  by (cases fs) (auto simp: keep_entry_def split0_def)

lemma parseMasterList_twocol_drop:
  assumes "\<not> keep_entry (row_entry row)"
  shows "parseMasterList_twocol (pre @ row # post) = parseMasterList_twocol (pre @ post)"
  using assms by (simp add: parseMasterList_twocol_def)

lemma parseMasterList_twocol_repeat:
  assumes "row' \<in> set pre" and "row_entry row = row_entry row'"
  shows "parseMasterList_twocol (pre @ row # post) = parseMasterList_twocol (pre @ post)"
proof (cases "keep_entry (row_entry row)")
  case False
  then show ?thesis by (rule parseMasterList_twocol_drop)
next
  case True
  with assms have "the (row_entry row) \<in> set (map the (filter keep_entry (map row_entry pre)))"
    by force
  then show ?thesis
    using True by (simp add: parseMasterList_twocol_def new_Set_repeat)
qed

lemma set_parseMasterList_single:
  "set (parseMasterList_single data) = {trim f | f. f \<in> \<Union> (set ` set data) \<and> trim f \<noteq> []}"
  by (auto simp: parseMasterList_single_def set_new_Set)

lemma twocol_items_have_comma:
  "item \<in> set (parseMasterList_twocol data) \<Longrightarrow> CHR '','' \<in> set item"
proof -
  assume "item \<in> set (parseMasterList_twocol data)"
  then obtain row where "row_entry row = Some item"
    unfolding set_parseMasterList_twocol by auto
  then show ?thesis by (cases row rule: row_entry.cases) auto
qed

lemma instrument_has_no_comma: "CHR '','' \<notin> set (trim (split0 item))"
  using split0_no_comma set_trim_subset by blast

subsection \<open>Sessions of the two-column component\<close>

lemma prototype_names_no_comma: "n \<in> set Object_prototype_names \<Longrightarrow> CHR '','' \<notin> set n"
  by (auto simp: Object_prototype_names_def)

lemma keys_run:
  "k \<in> set (keys (scannedData s)) \<Longrightarrow> k \<in> set (keys (scannedData (run s actions)))"
proof (induction actions arbitrary: s)
  case Nil
  then show ?case by (simp add: run_def)
next
  case (Cons a actions)
  from act_cases [of s a] Cons.prems have "k \<in> set (keys (scannedData (act s a)))"
    by (auto simp: keys_increment)
  from Cons.IH [OF this] show ?case by (simp add: run_def)
qed

lemma keys_run_single:
  "k \<in> set (keys (scannedData s)) \<Longrightarrow> k \<in> set (keys (scannedData (run_single s actions)))"
proof (induction actions arbitrary: s)
  case Nil
  then show ?case by (simp add: run_single_def)
next
  case (Cons a actions)
  from act_single_cases [of s a] Cons.prems have "k \<in> set (keys (scannedData (act_single s a)))"
    by (auto simp: keys_increment)
  from Cons.IH [OF this] show ?case by (simp add: run_single_def)
qed

lemma twocol_nothing_matched:
  assumes "s = run initial_twocol (Upload data # scans)" and "\<forall>d. Upload d \<notin> set scans"
  shows "matched (report (masterList s) (scannedData s)) = []
     \<and> short (report (masterList s) (scannedData s)) = []
     \<and> missing (report (masterList s) (scannedData s)) = masterList s"
proof -
  let ?s0 = "act initial_twocol (Upload data)"
  have s: "s = run ?s0 scans" by (simp add: assms(1) run_def)
  have "set (keys (scannedData ?s0)) \<subseteq> (\<lambda>item. trim (split0 item)) ` set (masterList ?s0)"
    by (simp add: initial_twocol_def keys_def)
  from run_keys [OF assms(2) this]
  have m: "masterList s = parseMasterList_twocol data"
    and k: "set (keys (scannedData s)) \<subseteq> (\<lambda>item. trim (split0 item)) ` set (masterList ?s0)"
    by (auto simp: s)
  have z: "count_or_0 (scannedData s) item = 0" if "item \<in> set (masterList s)" for item
  proof -
    from that m have c: "CHR '','' \<in> set item" using twocol_items_have_comma by simp
    with k instrument_has_no_comma have "item \<notin> set (keys (scannedData s))" by fastforce
    then have "map_of (scannedData s) item = None"
      by (simp add: keys_def map_of_eq_None_iff)
    moreover have "item \<notin> set Object_prototype_names"
      using c prototype_names_no_comma by blast
    ultimately show ?thesis
      by (simp add: count_or_0_def)
  qed
  have f0: "filter (\<lambda>i. count_or_0 (scannedData s) i = 0) (masterList s) = masterList s"
    using z by (simp add: filter_id_conv)
  have f1: "filter (\<lambda>i. count_or_0 (scannedData s) i = 1) (masterList s) = []"
    using z by (simp add: filter_empty_conv zero_one_jsval)
  have f2: "filter (\<lambda>i. count_or_0 (scannedData s) i > 1) (masterList s) = []"
    using z by (simp add: filter_empty_conv zero_one_jsval)
  show ?thesis
    unfolding report_missing report_matched report_short f0 f1 f2 by simp
qed

subsection \<open>Unfolding the model on concrete inputs\<close>

lemmas eval_defs = run_def initial_twocol_def parseMasterList_twocol_def keep_entry_def split0_def
  new_Set_def set_add_def trim_def is_space_def onScanSuccess_def processNumber_def
  item_matches_def toUpperCase_def upper_char_def increment_def count_or_0_def Let_def
  Object_prototype_names_def assign_def jsval_simps

section \<open>The claims\<close>

subsection \<open>C1: the three buckets of expected items partition the catalog\<close>

text \<open>
  Claim C1, on the single-column component. The report reads the count of an item with
  \<^verbatim>\<open>scannedData[item] || 0\<close> on a plain object. For a master list loaded from the rows
  \<^verbatim>\<open>constructor\<close> and \<^verbatim>\<open>A\<close>, before anything is scanned, the read for \<^verbatim>\<open>constructor\<close>
  gives the inherited function: it is not 0, not 1 and not greater than 1, so the item
  is in none of \<^verbatim>\<open>missing\<close>, \<^verbatim>\<open>matched\<close> and \<^verbatim>\<open>short\<close>, and the three sizes add up to 1
  while \<^verbatim>\<open>totalExpected\<close> is 2.
\<close>

theorem prototype_name_in_no_bucket:
  "parseMasterList_single [[''constructor''], [''A'']] = [''constructor'', ''A'']
   \<and> report (parseMasterList_single [[''constructor''], [''A'']]) []
       = \<lparr>totalExpected = 2, totalScanned = 0, missing = [''A''], excess = [], short = [],
          matched = []\<rparr>"
  by (simp add: parseMasterList_single_def eval_defs report_def classify_def keys_def vals_def)

text \<open>
  Where the claim does hold: for a master list built by either component with no item
  named like a member of \<^verbatim>\<open>Object.prototype\<close>, and a tally whose values are all numbers,
  the items in \<^verbatim>\<open>missing\<close>, in \<^verbatim>\<open>matched\<close> and the keys of \<^verbatim>\<open>short\<close> are together exactly
  the items of the master list, no item is in two of them or twice in one, and the three
  sizes add up to \<^verbatim>\<open>totalExpected\<close>. (An item of the two-column component has a comma
  and is never such a name.)
\<close>

lemma partition_of_plain_catalog:
  assumes "ml = parseMasterList_single data \<or> ml = parseMasterList_twocol data"
    and "set ml \<inter> set Object_prototype_names = {}" and "Other \<notin> set (vals sd)"
  shows "set (missing (report ml sd)) \<union> set (matched (report ml sd))
           \<union> set (keys (short (report ml sd))) = set ml
       \<and> distinct (missing (report ml sd) @ matched (report ml sd) @ keys (short (report ml sd)))
       \<and> length (missing (report ml sd)) + length (matched (report ml sd))
           + length (short (report ml sd)) = totalExpected (report ml sd)"
proof -
  from assms(1) have d: "distinct ml"
    using distinct_parseMasterList_single distinct_parseMasterList_twocol by auto
  have c: "\<forall>i \<in> set ml. count_or_0 sd i \<noteq> Other"
    using assms(2,3) count_of_plain_item by blast
  have "''__proto__'' \<in> set Object_prototype_names"
    by (simp add: Object_prototype_names_def)
  with assms(2) have p: "''__proto__'' \<notin> set ml" by blast
  from d c p show ?thesis by (rule partition_distinct)
qed

subsection \<open>C2: a scan that matches no item\<close>

text \<open>
  Claim C2 says that a scan which resolves to no catalog entry is answered with the
  "unmatched" signal and is still recorded, so that it shows up in \<^verbatim>\<open>excess\<close>. The
  two-column component gives the signal and records nothing: after the rejected scan of
  \<^verbatim>\<open>GHOST-404\<close> against the master list \<^verbatim>\<open>["A,"]\<close> the tally is empty and so is
  \<^verbatim>\<open>excess\<close>.
\<close>

theorem unmatched_scan_lost_twocol:
  "\<not> item_matches (toUpperCase (trim ''GHOST-404'')) ''A,''
   \<and> fst (processNumber ''GHOST-404'' \<lparr>masterList = [''A,''], scannedData = [], manualNumber = []\<rparr>) = JFalse
   \<and> scannedData (snd (processNumber ''GHOST-404''
        \<lparr>masterList = [''A,''], scannedData = [], manualNumber = []\<rparr>)) = []
   \<and> excess (report [''A,''] (scannedData (snd (processNumber ''GHOST-404''
        \<lparr>masterList = [''A,''], scannedData = [], manualNumber = []\<rparr>)))) = []"
  by (simp add: eval_defs report_def classify_def keys_def vals_def)

text \<open>
  Claim C2 as amended. In the two-column component a scan that matches no item makes
  \<^verbatim>\<open>processNumber\<close> return \<^verbatim>\<open>false\<close> and leaves the state as it was; \<^verbatim>\<open>handleScan\<close> then
  shows the alert and keeps the text in the field. In the single-column component, which
  has neither a look-up nor a result, a scan of a non-empty text that is not an item of
  the master list stores \<^verbatim>\<open>(prev[k] || 0) + 1\<close> under the trimmed text \<open>k\<close>, which
  increments the count or starts it at 1 (a first scan of a text named like a member of
  \<^verbatim>\<open>Object.prototype\<close> stores a string instead), and the report lists that text with the
  stored value in \<^verbatim>\<open>excess\<close>.
\<close>

theorem unmatched_scan_outcome:
  "((\<forall>item \<in> set (masterList s). \<not> item_matches (toUpperCase (trim number)) item) \<and> number \<noteq> []
      \<longrightarrow> processNumber number s = (JFalse, s))
   \<and> ((\<forall>item \<in> set (masterList s). \<not> item_matches (toUpperCase (trim (target_value event))) item)
        \<and> (key event = ''Enter'' \<or> key event = ''Tab'')
      \<longrightarrow> handleScan_twocol event s = (s, target_value event, True))
   \<and> ((key event = ''Enter'' \<or> key event = ''Tab'') \<and> trim (target_value event) \<noteq> []
        \<and> trim (target_value event) \<notin> set (masterList t)
      \<longrightarrow> scannedData (fst (handleScan_single event t))
            = increment (trim (target_value event)) (scannedData t)
          \<and> (trim (target_value event), count_or_0 (scannedData t) (trim (target_value event)) + 1)
            \<in> set (excess (report (masterList (fst (handleScan_single event t)))
                                (scannedData (fst (handleScan_single event t))))))"
proof -
  have 1: "(\<forall>item \<in> set (masterList s). \<not> item_matches (toUpperCase (trim number)) item) \<and> number \<noteq> []
      \<longrightarrow> processNumber number s = (JFalse, s)"
    by (simp add: processNumber_no_match)
  have 2: "(\<forall>item \<in> set (masterList s). \<not> item_matches (toUpperCase (trim (target_value event))) item)
        \<and> (key event = ''Enter'' \<or> key event = ''Tab'')
      \<longrightarrow> handleScan_twocol event s = (s, target_value event, True)"
    by (auto simp: handleScan_twocol_def Let_def trim_trim processNumber_no_match truthy_def)
  have 3: "(key event = ''Enter'' \<or> key event = ''Tab'') \<and> trim (target_value event) \<noteq> []
        \<and> trim (target_value event) \<notin> set (masterList t)
      \<longrightarrow> scannedData (fst (handleScan_single event t))
            = increment (trim (target_value event)) (scannedData t)
          \<and> (trim (target_value event), count_or_0 (scannedData t) (trim (target_value event)) + 1)
            \<in> set (excess (report (masterList (fst (handleScan_single event t)))
                                (scannedData (fst (handleScan_single event t)))))"
  proof (intro impI; elim conjE)
    let ?k = "trim (target_value event)"
    assume k: "key event = ''Enter'' \<or> key event = ''Tab''" and ne: "?k \<noteq> []"
      and nm: "?k \<notin> set (masterList t)"
    have st: "fst (handleScan_single event t) = t\<lparr>scannedData := increment ?k (scannedData t)\<rparr>"
      using k ne by (auto simp: handleScan_single_def Let_def)
    have "map_of (increment ?k (scannedData t)) ?k = Some (count_or_0 (scannedData t) ?k + 1)"
      by (simp add: increment_def map_of_put)
    from excess_member [OF this nm] show "scannedData (fst (handleScan_single event t))
            = increment ?k (scannedData t)
          \<and> (?k, count_or_0 (scannedData t) ?k + 1)
            \<in> set (excess (report (masterList (fst (handleScan_single event t)))
                                (scannedData (fst (handleScan_single event t)))))"
      by (simp add: st)
  qed
  from 1 2 3 show ?thesis by blast
qed

theorem unmatched_scan_outcome_witness:
  "\<not> item_matches (toUpperCase (trim ''GHOST-404'')) ''A,''
   \<and> \<not> item_matches
         (toUpperCase (trim (target_value \<lparr>key = ''Enter'', target_value = '' GHOST-404 ''\<rparr>))) ''A,''
   \<and> ((key \<lparr>key = ''Enter'', target_value = '' GHOST-404 ''\<rparr> = ''Enter''
          \<or> key \<lparr>key = ''Enter'', target_value = '' GHOST-404 ''\<rparr> = ''Tab'')
       \<and> trim (target_value \<lparr>key = ''Enter'', target_value = '' GHOST-404 ''\<rparr>) \<noteq> []
       \<and> trim (target_value \<lparr>key = ''Enter'', target_value = '' GHOST-404 ''\<rparr>)
           \<notin> set (masterList \<lparr>masterList = [''A''], scannedData = []\<rparr>))
   \<and> processNumber ''GHOST-404'' \<lparr>masterList = [''A,''], scannedData = [], manualNumber = []\<rparr>
       = (JFalse, \<lparr>masterList = [''A,''], scannedData = [], manualNumber = []\<rparr>)
   \<and> handleScan_twocol \<lparr>key = ''Enter'', target_value = '' GHOST-404 ''\<rparr>
         \<lparr>masterList = [''A,''], scannedData = [], manualNumber = []\<rparr>
       = (\<lparr>masterList = [''A,''], scannedData = [], manualNumber = []\<rparr>,
          target_value \<lparr>key = ''Enter'', target_value = '' GHOST-404 ''\<rparr>, True)
   \<and> (trim (target_value \<lparr>key = ''Enter'', target_value = '' GHOST-404 ''\<rparr>),
        count_or_0 (scannedData \<lparr>masterList = [''A''], scannedData = []\<rparr>)
          (trim (target_value \<lparr>key = ''Enter'', target_value = '' GHOST-404 ''\<rparr>)) + 1)
       \<in> set (excess (report
            (masterList (fst (handleScan_single \<lparr>key = ''Enter'', target_value = '' GHOST-404 ''\<rparr>
               \<lparr>masterList = [''A''], scannedData = []\<rparr>)))
            (scannedData (fst (handleScan_single \<lparr>key = ''Enter'', target_value = '' GHOST-404 ''\<rparr>
               \<lparr>masterList = [''A''], scannedData = []\<rparr>)))))"
proof -
  let ?s = "\<lparr>masterList = [''A,''], scannedData = [], manualNumber = []\<rparr>"
  let ?t = "\<lparr>masterList = [''A''], scannedData = []\<rparr>"
  let ?e = "\<lparr>key = ''Enter'', target_value = '' GHOST-404 ''\<rparr>"
  have h1: "(\<forall>item \<in> set (masterList ?s). \<not> item_matches (toUpperCase (trim ''GHOST-404'')) item)
      \<and> ''GHOST-404'' \<noteq> []"
    by (simp add: eval_defs)
  have h2: "(\<forall>item \<in> set (masterList ?s).
        \<not> item_matches (toUpperCase (trim (target_value ?e))) item)
      \<and> (key ?e = ''Enter'' \<or> key ?e = ''Tab'')"
    by (simp add: eval_defs)
  have h3: "(key ?e = ''Enter'' \<or> key ?e = ''Tab'') \<and> trim (target_value ?e) \<noteq> []
      \<and> trim (target_value ?e) \<notin> set (masterList ?t)"
    by (simp add: eval_defs)
  have m: "\<not> item_matches (toUpperCase (trim ''GHOST-404'')) ''A,''
      \<and> \<not> item_matches (toUpperCase (trim (target_value ?e))) ''A,''"
    by (simp add: eval_defs)
  from h1 h2 h3 m
    unmatched_scan_outcome [where s = ?s and number = "''GHOST-404''" and event = ?e and t = ?t]
  show ?thesis by blast
qed

subsection \<open>C3: scanned once is matched, scanned twice is short\<close>

text \<open>
  Claim C3, on the two-column component. The master list is loaded from the row
  \<^verbatim>\<open>("INST-1","SN-99")\<close> and \<^verbatim>\<open>INST-1\<close> is scanned once. \<^verbatim>\<open>processNumber\<close> counts the scan
  under the instrument number \<^verbatim>\<open>INST-1\<close>, but the report looks the count up under the
  whole item \<^verbatim>\<open>"INST-1,SN-99"\<close>: the item is reported missing, nothing is matched, and
  the instrument number is listed in \<^verbatim>\<open>excess\<close>.
\<close>

theorem twocol_scan_once_not_matched:
  "report
     (masterList (run initial_twocol
        [Upload [[''INST-1'', ''SN-99'']], KeyDown \<lparr>key = ''Enter'', target_value = ''INST-1''\<rparr>]))
     (scannedData (run initial_twocol
        [Upload [[''INST-1'', ''SN-99'']], KeyDown \<lparr>key = ''Enter'', target_value = ''INST-1''\<rparr>]))
   = \<lparr>totalExpected = 1, totalScanned = 1, missing = [''INST-1,SN-99''],
      excess = [(''INST-1'', 1)], short = [], matched = []\<rparr>"
  by (simp add: eval_defs handleScan_twocol_def truthy_def report_def classify_def
      collect_excess_def keys_def vals_def)

text \<open>
  In every session of the two-column component that loads a master list and then
  records scans, every item is missing and nothing is matched or short (an item always
  has a comma, a key of the tally never has one). The report itself classifies as the
  claim says, and the single-column component, which counts a scan under the item
  itself, behaves as claimed: an item with count 1 is in \<^verbatim>\<open>matched\<close> only, and after one
  more scan of it \<^verbatim>\<open>short\<close> holds it with count 2 (for an item other than
  \<^verbatim>\<open>__proto__\<close>, which \<^verbatim>\<open>short\<close> cannot hold).
\<close>

lemma single_column_classification:
  assumes "item \<in> set ml" and "count_or_0 sd item = 1" and "item \<noteq> ''__proto__''"
  shows "item \<in> set (matched (report ml sd)) \<and> item \<notin> set (missing (report ml sd))
       \<and> item \<notin> set (keys (short (report ml sd)))
       \<and> map_of (short (report ml (increment item sd))) item = Some 2
       \<and> item \<notin> set (matched (report ml (increment item sd)))
       \<and> item \<notin> set (missing (report ml (increment item sd)))"
proof -
  have 1: "item \<in> set (matched (report ml sd)) \<and> item \<notin> set (missing (report ml sd))
       \<and> item \<notin> set (keys (short (report ml sd)))"
    using assms by (simp add: report_matched report_missing set_keys_report_short zero_one_jsval)
  have c: "count_or_0 (increment item sd) item = 2"
    using assms(2) by (simp add: count_or_0_increment)
  have g: "(2 :: jsval) > 1" "(2 :: jsval) \<noteq> 1" "(2 :: jsval) \<noteq> 0"
    by (simp_all add: jsval_simps)
  have 2: "map_of (short (report ml (increment item sd))) item = Some 2"
    using assms(1,3) c g by (simp add: report_short map_of_foldl_assign)
  have 3: "item \<notin> set (matched (report ml (increment item sd)))
       \<and> item \<notin> set (missing (report ml (increment item sd)))"
    using c g by (simp add: report_matched report_missing)
  from 1 2 3 show ?thesis by blast
qed

subsection \<open>C4: either identifier of an item resolves to it\<close>

text \<open>
  Claim C4 says that for every catalog item with both identifiers, a scan of either one
  increments the tally of that item. \<^verbatim>\<open>masterList.find\<close> takes the first item that has
  the scanned text as instrument or serial number: in the master list built from the rows
  \<^verbatim>\<open>("A","B")\<close> and \<^verbatim>\<open>("B","C")\<close>, a scan of \<^verbatim>\<open>B\<close>, the primary identifier of the second
  item, increments the tally of \<^verbatim>\<open>A\<close>, while a scan of its secondary identifier \<^verbatim>\<open>C\<close>
  increments the tally of \<^verbatim>\<open>B\<close>.
\<close>

theorem earlier_entry_wins:
  "parseMasterList_twocol [[''A'', ''B''], [''B'', ''C'']] = [''A,B'', ''B,C'']
   \<and> scannedData (snd (processNumber ''B''
        \<lparr>masterList = [''A,B'', ''B,C''], scannedData = [], manualNumber = []\<rparr>)) = [(''A'', 1)]
   \<and> scannedData (snd (processNumber ''C''
        \<lparr>masterList = [''A,B'', ''B,C''], scannedData = [], manualNumber = []\<rparr>)) = [(''B'', 1)]"
  by (simp add: eval_defs)

text \<open>
  Claim C4 as amended. Let an item of the master list of the two-column component be
  \<^verbatim>\<open>"p,q"\<close> with no comma in \<open>p\<close> or \<open>q\<close>, and let the scanned text, trimmed and in upper
  case, be non-empty and equal to \<open>p\<close> or to \<open>q\<close> trimmed and in upper case. If no earlier
  item of the master list has that text as its instrument or serial number (the first
  match wins), \<^verbatim>\<open>processNumber\<close> returns \<^verbatim>\<open>true\<close> and increments the count under \<open>p\<close>,
  whichever of the two identifiers was scanned (it stores \<^verbatim>\<open>(prev[p] || 0) + 1\<close>, which
  is a string at the first scan when \<open>p\<close> is named like a member of
  \<^verbatim>\<open>Object.prototype\<close>).
\<close>

theorem either_identifier_resolves:
  assumes "masterList s = pre @ (p @ '','' @ q) # post"
    and "CHR '','' \<notin> set p" and "CHR '','' \<notin> set q"
    and "\<forall>e \<in> set pre. \<not> item_matches (toUpperCase (trim number)) e"
    and "trim number \<noteq> []"
    and "toUpperCase (trim number) = toUpperCase (trim p)
         \<or> toUpperCase (trim number) = toUpperCase (trim q)"
  shows "processNumber number s = (JTrue, s\<lparr>scannedData := increment (trim p) (scannedData s)\<rparr>)"
proof -
  from assms(5) have n: "number \<noteq> []" by (auto simp: trim_def)
  have m: "item_matches (toUpperCase (trim number)) (p @ '','' @ q)"
    using assms(6) by (simp add: item_matches_pair [OF assms(2,3)])
  have "find (item_matches (toUpperCase (trim number))) (masterList s) = Some (p @ '','' @ q)"
    unfolding assms(1) using m by (simp add: find_skip [OF assms(4)])
  then show ?thesis
    using n by (simp add: processNumber_def Let_def split0_pair [OF assms(2)])
qed

theorem either_identifier_resolves_witness:
  "masterList \<lparr>masterList = [''X,Y'', ''INST-1,SN-99''], scannedData = [(''INST-1'', 1)],
       manualNumber = []\<rparr>
      = [''X,Y''] @ (''INST-1'' @ '','' @ ''SN-99'') # []
   \<and> CHR '','' \<notin> set ''INST-1'' \<and> CHR '','' \<notin> set ''SN-99''
   \<and> \<not> item_matches (toUpperCase (trim '' sn-99'')) ''X,Y''
   \<and> trim '' sn-99'' \<noteq> []
   \<and> toUpperCase (trim '' sn-99'') = toUpperCase (trim ''SN-99'')
   \<and> processNumber '' sn-99''
        \<lparr>masterList = [''X,Y'', ''INST-1,SN-99''], scannedData = [(''INST-1'', 1)],
           manualNumber = []\<rparr>
      = (JTrue, \<lparr>masterList = [''X,Y'', ''INST-1,SN-99''], scannedData = [(''INST-1'', 2)],
           manualNumber = []\<rparr>)"
proof -
  let ?s = "\<lparr>masterList = [''X,Y'', ''INST-1,SN-99''], scannedData = [(''INST-1'', 1)],
    manualNumber = []\<rparr>"
  have h1: "masterList ?s = [''X,Y''] @ (''INST-1'' @ '','' @ ''SN-99'') # []" by simp
  have h2: "CHR '','' \<notin> set ''INST-1''" by simp
  have h3: "CHR '','' \<notin> set ''SN-99''" by simp
  have m: "\<not> item_matches (toUpperCase (trim '' sn-99'')) ''X,Y''"
    by (simp add: eval_defs)
  then have h4: "\<forall>e \<in> set [''X,Y'']. \<not> item_matches (toUpperCase (trim '' sn-99'')) e" by simp
  have h5: "trim '' sn-99'' \<noteq> []" by (simp add: eval_defs)
  have u: "toUpperCase (trim '' sn-99'') = toUpperCase (trim ''SN-99'')"
    by (simp add: eval_defs)
  then have h6: "toUpperCase (trim '' sn-99'') = toUpperCase (trim ''INST-1'')
       \<or> toUpperCase (trim '' sn-99'') = toUpperCase (trim ''SN-99'')"
    by (rule disjI2)
  have e: "?s\<lparr>scannedData := increment (trim ''INST-1'') (scannedData ?s)\<rparr>
      = \<lparr>masterList = [''X,Y'', ''INST-1,SN-99''], scannedData = [(''INST-1'', 2)],
           manualNumber = []\<rparr>"
    by (simp add: eval_defs)
  have p: "processNumber '' sn-99'' ?s
      = (JTrue, ?s\<lparr>scannedData := increment (trim ''INST-1'') (scannedData ?s)\<rparr>)"
    by (rule either_identifier_resolves [OF h1 h2 h3 h4 h5 h6])
  have "processNumber '' sn-99'' ?s
      = (JTrue, \<lparr>masterList = [''X,Y'', ''INST-1,SN-99''], scannedData = [(''INST-1'', 2)],
           manualNumber = []\<rparr>)"
    using p unfolding e .
  with h1 h2 h3 m h5 u show ?thesis by blast
qed

text \<open>The example of the claim: \<^verbatim>\<open>inst-1\<close> and \<^verbatim>\<open>sn-99\<close> both count for \<^verbatim>\<open>INST-1\<close>.\<close>

lemma resolve_example:
  "scannedData (run \<lparr>masterList = [''INST-1,SN-99''], scannedData = [], manualNumber = []\<rparr>
      [CameraScan ''inst-1'', CameraScan ''sn-99'']) = [(''INST-1'', 2)]"
  by (simp add: eval_defs)

subsection \<open>C5: blank input\<close>

text \<open>
  Claim C5, on the two-column component. \<^verbatim>\<open>processNumber\<close> tests \<^verbatim>\<open>!number\<close> before it
  trims, and \<^verbatim>\<open>handleManualSubmit\<close> passes the text of the field untrimmed. With a master
  list loaded from the one-field row \<^verbatim>\<open>("A")\<close>, the item \<^verbatim>\<open>"A,"\<close> has the empty serial
  number, which equals the normal form of a blank text: submitting two spaces returns
  \<^verbatim>\<open>true\<close> and counts one scan of \<^verbatim>\<open>A\<close>.
\<close>

theorem blank_manual_entry_is_counted:
  "processNumber ''  '' \<lparr>masterList = [''A,''], scannedData = [], manualNumber = ''  ''\<rparr>
     = (JTrue, \<lparr>masterList = [''A,''], scannedData = [(''A'', 1)], manualNumber = ''  ''\<rparr>)
   \<and> run initial_twocol [Upload [[''A'']], TypeManual ''  '', SubmitManual]
     = \<lparr>masterList = [''A,''], scannedData = [(''A'', 1)], manualNumber = []\<rparr>"
  by (simp add: eval_defs handleManualSubmit_def truthy_def)

text \<open>
  Where the text is trimmed before the test, blank input changes nothing: the empty
  string in \<^verbatim>\<open>processNumber\<close>, and any blank text in the scan field of either component.
\<close>

lemma blank_scan_noop_where_guarded:
  assumes "trim v = []"
  shows "processNumber [] s = (Undefined, s)"
    and "key event = ''Enter'' \<or> key event = ''Tab'' \<Longrightarrow> target_value event = v \<Longrightarrow>
         handleScan_twocol event s = (s, v, True)"
    and "target_value event = v \<Longrightarrow> handleScan_single event t = (t, v)"
  using assms
  by (auto simp: processNumber_def handleScan_twocol_def handleScan_single_def truthy_def Let_def)

subsection \<open>C6: the totals of the report\<close>



text \<open>
  An example, and the step of one recorded scan: it adds one to \<^verbatim>\<open>totalScanned\<close> unless
  the key is new and named like a member of \<^verbatim>\<open>Object.prototype\<close>. The keys of the tally
  stay distinct through a session of either component, so the last part of the statement
  applies to every tally a session reaches.
\<close>

lemma report_totals_example:
  "totalScanned (report [''A'', ''B'', ''C''] [(''A'', 2), (''X'', 1)]) = 3
   \<and> excess (report [''A'', ''B'', ''C''] [(''A'', 2), (''X'', 1)]) = [(''X'', 1)]"
  by (simp add: eval_defs report_def classify_def collect_excess_def keys_def vals_def)

lemma totalScanned_increment:
  assumes "k \<in> set (keys sd) \<or> k \<notin> set Object_prototype_names"
  shows "totalScanned (report ml (increment k sd)) = totalScanned (report ml sd) + 1"
  using assms by (simp add: report_totalScanned sum_vals_increment)

subsection \<open>C7: building the master list\<close>

text \<open>
  Claim C7 says that a row with two or more fields becomes one entry with a primary and
  a secondary identifier. The single-column component flattens the rows instead: the row
  \<^verbatim>\<open>("INST-1","SN-99")\<close> gives the two items \<^verbatim>\<open>INST-1\<close> and \<^verbatim>\<open>SN-99\<close>, where the two-column
  component gives the one item \<^verbatim>\<open>"INST-1,SN-99"\<close>.
\<close>

theorem single_column_build_flattens:
  "parseMasterList_single [[''INST-1'', ''SN-99'']] = [''INST-1'', ''SN-99'']
   \<and> parseMasterList_twocol [[''INST-1'', ''SN-99'']] = [''INST-1,SN-99'']"
  by (simp add: eval_defs parseMasterList_single_def)

text \<open>
  Claim C7 as amended, for the two-column component. A row with one field \<open>f0\<close> gives the
  text \<^verbatim>\<open>"f0,"\<close>, a row with two or more fields gives \<^verbatim>\<open>"f0,f1"\<close> whatever follows,
  both fields trimmed, and a row with no field gives nothing. The master list is built
  row by row: a row adds its text at the end when the part of the text before its first
  comma is not empty and the text is not in the list yet, and adds nothing otherwise. So
  a row whose first field is blank is dropped, a row whose first field is not blank and
  has no comma is in the list, a row that gives the same text as an earlier row adds
  nothing, and no text is in the list twice.
\<close>

theorem catalog_build_twocol:
  "row_entry [f0] = Some (trim f0 @ '','')
   \<and> row_entry (f0 # f1 # rest) = Some (trim f0 @ '','' @ trim f1)
   \<and> row_entry [] = None
   \<and> parseMasterList_twocol [] = []
   \<and> parseMasterList_twocol (data @ [row]) =
       (case row_entry row of
          None \<Rightarrow> parseMasterList_twocol data
        | Some e \<Rightarrow>
            if split0 e \<noteq> [] \<and> e \<notin> set (parseMasterList_twocol data)
            then parseMasterList_twocol data @ [e]
            else parseMasterList_twocol data)
   \<and> (trim f0 = [] \<longrightarrow>
        parseMasterList_twocol (pre @ (f0 # fs) # post) = parseMasterList_twocol (pre @ post))
   \<and> (CHR '','' \<notin> set g0 \<and> trim g0 \<noteq> [] \<longrightarrow>
        trim g0 @ '','' @ (case gs of [] \<Rightarrow> [] | g1 # rest \<Rightarrow> trim g1)
          \<in> set (parseMasterList_twocol (pre @ (g0 # gs) # post)))
   \<and> (row' \<in> set pre \<and> row_entry row = row_entry row' \<longrightarrow>
        parseMasterList_twocol (pre @ row # post) = parseMasterList_twocol (pre @ post))
   \<and> distinct (parseMasterList_twocol data)"
proof -
  have 1: "trim f0 = [] \<longrightarrow>
        parseMasterList_twocol (pre @ (f0 # fs) # post) = parseMasterList_twocol (pre @ post)"
    using empty_primary_dropped parseMasterList_twocol_drop by blast
  have 2: "CHR '','' \<notin> set g0 \<and> trim g0 \<noteq> [] \<longrightarrow>
        trim g0 @ '','' @ (case gs of [] \<Rightarrow> [] | g1 # rest \<Rightarrow> trim g1)
          \<in> set (parseMasterList_twocol (pre @ (g0 # gs) # post))"
  proof (intro impI; elim conjE)
    assume c: "CHR '','' \<notin> set g0" and t: "trim g0 \<noteq> []"
    from c have "CHR '','' \<notin> set (trim g0)" using set_trim_subset by blast
    then have s: "\<And>q. split0 (trim g0 @ CHR '','' # q) = trim g0" by (rule split0_pair)
    have "row_entry (g0 # gs) = Some (trim g0 @ '','' @ (case gs of [] \<Rightarrow> [] | g1 # rest \<Rightarrow> trim g1))"
      by (cases gs) auto
    moreover have "split0 (trim g0 @ '','' @ (case gs of [] \<Rightarrow> [] | g1 # rest \<Rightarrow> trim g1)) \<noteq> []"
      using s t by simp
    ultimately show "trim g0 @ '','' @ (case gs of [] \<Rightarrow> [] | g1 # rest \<Rightarrow> trim g1)
          \<in> set (parseMasterList_twocol (pre @ (g0 # gs) # post))"
      unfolding set_parseMasterList_twocol by auto
  qed
  have 3: "row' \<in> set pre \<and> row_entry row = row_entry row' \<longrightarrow>
        parseMasterList_twocol (pre @ row # post) = parseMasterList_twocol (pre @ post)"
    using parseMasterList_twocol_repeat by blast
  from 1 2 3 show ?thesis
    using parseMasterList_twocol_snoc [of data row]
    by (simp add: parseMasterList_twocol_Nil distinct_parseMasterList_twocol)
qed

theorem catalog_build_twocol_witness:
  "trim '' '' = []
   \<and> (CHR '','' \<notin> set '' INST-1 '' \<and> trim '' INST-1 '' \<noteq> [])
   \<and> ([''A'', ''B''] \<in> set [[''A'', ''B'']] \<and> row_entry [''A '', '' B'', ''x''] = row_entry [''A'', ''B''])
   \<and> parseMasterList_twocol ([[''A'', ''B'']] @ ['' '', ''x''] # [[''C'']])
       = parseMasterList_twocol ([[''A'', ''B'']] @ [[''C'']])
   \<and> trim '' INST-1 '' @ '','' @ (case [''SN-99''] of [] \<Rightarrow> [] | g1 # rest \<Rightarrow> trim g1)
       \<in> set (parseMasterList_twocol ([[''A'', ''B'']] @ ['' INST-1 '', ''SN-99''] # [[''C'']]))
   \<and> parseMasterList_twocol ([[''A'', ''B'']] @ [''A '', '' B'', ''x''] # [[''C'']])
       = parseMasterList_twocol ([[''A'', ''B'']] @ [[''C'']])"
proof -
  have h1: "trim '' '' = []" by (simp add: eval_defs)
  have h2: "CHR '','' \<notin> set '' INST-1 '' \<and> trim '' INST-1 '' \<noteq> []" by (simp add: eval_defs)
  have h3: "[''A'', ''B''] \<in> set [[''A'', ''B'']]
      \<and> row_entry [''A '', '' B'', ''x''] = row_entry [''A'', ''B'']"
    by (simp add: eval_defs)
  from h1 h2 h3
    catalog_build_twocol [where ?f0.0 = "'' ''" and fs = "[''x'']" and pre = "[[''A'', ''B'']]"
      and post = "[[''C'']]" and ?g0.0 = "'' INST-1 ''" and gs = "[''SN-99'']"
      and row' = "[''A'', ''B'']" and row = "[''A '', '' B'', ''x'']"]
  show ?thesis by blast
qed

text \<open>Rows with no field, blank rows and repeated rows in one list.\<close>

lemma catalog_build_example:
  "parseMasterList_twocol [[''INST-1'', ''SN-99''], [''A''], [], ['' ''], ['' '', ''x''],
      [''A'', [], ''z''], ['' INST-1'', ''SN-99 '']] = [''INST-1,SN-99'', ''A,'']"
  by (simp add: eval_defs)

subsection \<open>C8: the tally only grows\<close>

text \<open>
  Claim C8. In both components, whatever the user does (any list of actions), a key that
  is in the tally stays in it and a count never gets smaller; loading a master list or
  typing in the manual field leaves the tally as it is, so only recording a scan changes
  it.
\<close>

theorem tally_grows_monotonically:
  "(map_of (scannedData s) k = Some (Num c) \<longrightarrow>
      (\<exists>c'. c \<le> c' \<and> map_of (scannedData (run s actions)) k = Some (Num c')))
   \<and> (map_of (scannedData t) k = Some (Num c) \<longrightarrow>
      (\<exists>c'. c \<le> c' \<and> map_of (scannedData (run_single t actions1)) k = Some (Num c')))
   \<and> (k \<in> set (keys (scannedData s)) \<longrightarrow> k \<in> set (keys (scannedData (run s actions))))
   \<and> (k \<in> set (keys (scannedData t)) \<longrightarrow> k \<in> set (keys (scannedData (run_single t actions1))))
   \<and> scannedData (act s (Upload data)) = scannedData s
   \<and> scannedData (act s (TypeManual v)) = scannedData s
   \<and> scannedData (act_single t (Upload_single data)) = scannedData t"
  using run_mono [of s k c actions] run_single_mono [of t k c actions1]
    keys_run [of k s actions] keys_run_single [of k t actions1] by simp

theorem tally_grows_monotonically_witness:
  "map_of (scannedData \<lparr>masterList = [''A,''], scannedData = [(''A'', Num 1)], manualNumber = []\<rparr>)
       ''A'' = Some (Num 1)
   \<and> (\<exists>c'. 1 \<le> c' \<and>
        map_of (scannedData
          (run \<lparr>masterList = [''A,''], scannedData = [(''A'', Num 1)], manualNumber = []\<rparr>
             [CameraScan ''a'', TypeManual ''zz'', SubmitManual])) ''A'' = Some (Num c'))
   \<and> map_of (scannedData \<lparr>masterList = [''A''], scannedData = [(''A'', Num 1)]\<rparr>) ''A''
       = Some (Num 1)
   \<and> (\<exists>c'. 1 \<le> c' \<and>
        map_of (scannedData
          (run_single \<lparr>masterList = [''A''], scannedData = [(''A'', Num 1)]\<rparr>
             [KeyDown_single \<lparr>key = ''Enter'', target_value = ''A''\<rparr>])) ''A'' = Some (Num c'))
   \<and> ''A'' \<in> set (keys (scannedData
          (run \<lparr>masterList = [''A,''], scannedData = [(''A'', Num 1)], manualNumber = []\<rparr>
             [CameraScan ''a'', TypeManual ''zz'', SubmitManual])))
   \<and> ''A'' \<in> set (keys (scannedData
          (run_single \<lparr>masterList = [''A''], scannedData = [(''A'', Num 1)]\<rparr>
             [KeyDown_single \<lparr>key = ''Enter'', target_value = ''A''\<rparr>])))"
proof -
  let ?s = "\<lparr>masterList = [''A,''], scannedData = [(''A'', Num 1)], manualNumber = []\<rparr>"
  let ?t = "\<lparr>masterList = [''A''], scannedData = [(''A'', Num 1)]\<rparr>"
  have h1: "map_of (scannedData ?s) ''A'' = Some (Num 1)"
    by simp
  have h2: "map_of (scannedData ?t) ''A'' = Some (Num 1)"
    by simp
  have h3: "''A'' \<in> set (keys (scannedData ?s))" by (simp add: keys_def)
  have h4: "''A'' \<in> set (keys (scannedData ?t))" by (simp add: keys_def)
  from h1 h2 h3 h4
    tally_grows_monotonically [where s = ?s and k = "''A''" and c = 1
      and actions = "[CameraScan ''a'', TypeManual ''zz'', SubmitManual]"
      and t = ?t
      and ?actions1.0 = "[KeyDown_single \<lparr>key = ''Enter'', target_value = ''A''\<rparr>]"]
  show ?thesis by blast
qed

subsection \<open>C9: recording a scan changes nothing but the tally\<close>

text \<open>
  Claim C9. \<^verbatim>\<open>processNumber\<close> returns the state it was given with at most the tally
  replaced, so the master list is the same after it; the same holds after each handler
  that records a scan, in both components. The report is a function of the master list
  and the tally alone: the callback reads both, writes only its own four local
  collections, and so has no state to return.
\<close>

theorem record_and_report_frame:
  "snd (processNumber number s) = s\<lparr>scannedData := scannedData (snd (processNumber number s))\<rparr>
   \<and> masterList (snd (processNumber number s)) = masterList s
   \<and> masterList (fst (handleScan_twocol event s)) = masterList s
   \<and> masterList (fst (handleManualSubmit s)) = masterList s
   \<and> masterList (onScanSuccess decodedText s) = masterList s
   \<and> fst (handleScan_single event t) = t\<lparr>scannedData := scannedData (fst (handleScan_single event t))\<rparr>
   \<and> masterList (fst (handleScan_single event t)) = masterList t"
proof -
  have p: "\<And>x. snd (processNumber x s) = s\<lparr>scannedData := scannedData (snd (processNumber x s))\<rparr>"
  proof -
    fix x
    from processNumber_cases [of x s] show "?thesis x" by auto
  qed
  have m: "\<And>x. masterList (snd (processNumber x s)) = masterList s"
  proof -
    fix x
    from processNumber_cases [of x s] show "?thesis x" by auto
  qed
  have 1: "masterList (fst (handleScan_twocol event s)) = masterList s"
    using m [of "trim (target_value event)"]
    by (auto simp: handleScan_twocol_def Let_def split: prod.splits)
  have 2: "masterList (fst (handleManualSubmit s)) = masterList s"
    using m [of "manualNumber s"]
    by (auto simp: handleManualSubmit_def split: prod.splits)
  have 3: "masterList (onScanSuccess decodedText s) = masterList s"
    using m [of decodedText] by (simp add: onScanSuccess_def)
  have 4: "fst (handleScan_single event t) = t\<lparr>scannedData := scannedData (fst (handleScan_single event t))\<rparr>"
    by (simp add: handleScan_single_def Let_def)
  have 5: "masterList (fst (handleScan_single event t)) = masterList t"
    by (simp add: handleScan_single_def Let_def)
  from p [of number] m [of number] 1 2 3 4 5 show ?thesis by blast
qed

subsection \<open>C10: a rejected scan of the two-column component\<close>

text \<open>
  Claim C10 says that the identifier of a rejected scan never appears anywhere in any
  later report. The rejection itself is as claimed, but the report lists more than what
  was scanned. With the master list \<^verbatim>\<open>["A,S1"]\<close> the text \<^verbatim>\<open>A,S1\<close> is rejected (it is
  neither \<^verbatim>\<open>A\<close> nor \<^verbatim>\<open>S1\<close>) and is listed in \<^verbatim>\<open>missing\<close>, which holds the rows of the
  master list whatever was scanned. And dropping a file replaces the master list at any
  time and keeps the tally: after \<^verbatim>\<open>X\<close> was counted under a first list and a second list
  \<^verbatim>\<open>["A,S1"]\<close> was dropped, a scan of \<^verbatim>\<open>X\<close> is rejected and \<^verbatim>\<open>X\<close> is listed in \<^verbatim>\<open>excess\<close>.
\<close>

theorem rejected_text_still_reported:
  "\<not> item_matches (toUpperCase (trim ''A,S1'')) ''A,S1''
   \<and> processNumber ''A,S1'' \<lparr>masterList = [''A,S1''], scannedData = [], manualNumber = []\<rparr>
       = (JFalse, \<lparr>masterList = [''A,S1''], scannedData = [], manualNumber = []\<rparr>)
   \<and> ''A,S1'' \<in> set (missing (report [''A,S1'']
         (scannedData (snd (processNumber ''A,S1''
            \<lparr>masterList = [''A,S1''], scannedData = [], manualNumber = []\<rparr>)))))
   \<and> run initial_twocol [Upload [[''X'']], CameraScan ''X'', Upload [[''A'', ''S1'']]]
       = \<lparr>masterList = [''A,S1''], scannedData = [(''X'', 1)], manualNumber = []\<rparr>
   \<and> \<not> item_matches (toUpperCase (trim ''X'')) ''A,S1''
   \<and> processNumber ''X'' \<lparr>masterList = [''A,S1''], scannedData = [(''X'', 1)], manualNumber = []\<rparr>
       = (JFalse, \<lparr>masterList = [''A,S1''], scannedData = [(''X'', 1)], manualNumber = []\<rparr>)
   \<and> ''X'' \<in> fst ` set (excess (report [''A,S1'']
         (scannedData (snd (processNumber ''X''
            \<lparr>masterList = [''A,S1''], scannedData = [(''X'', 1)], manualNumber = []\<rparr>)))))"
  by (simp add: eval_defs report_def classify_def collect_excess_def keys_def vals_def)

text \<open>
  Claim C10 as amended. In the two-column component, let the scanned text, trimmed and
  in upper case, be the instrument or serial text of no item, as \<^verbatim>\<open>processNumber\<close> splits
  the items (the empty text after the comma of a one-field row counts as a serial text).
  Then \<^verbatim>\<open>processNumber\<close> returns a falsy value (\<^verbatim>\<open>false\<close> unless the text is empty) and
  the state it returns is the state it was given: no key is added or incremented. In a
  session that loads one master list and then records scans, the text is never a key of
  the tally afterwards, so it is in none of \<^verbatim>\<open>excess\<close>, \<^verbatim>\<open>matched\<close> and \<^verbatim>\<open>short\<close> of a
  later report; it is in \<^verbatim>\<open>missing\<close> exactly when it is itself a row of the master list.
\<close>

theorem rejected_scan_is_atomic:
  assumes "\<forall>item \<in> set (masterList s). \<not> item_matches (toUpperCase (trim number)) item"
  shows "snd (processNumber number s) = s
     \<and> \<not> truthy (fst (processNumber number s))
     \<and> (number \<noteq> [] \<longrightarrow> fst (processNumber number s) = JFalse)
     \<and> (s = run initial_twocol (Upload data # before)
          \<and> (\<forall>d. Upload d \<notin> set before) \<and> (\<forall>d. Upload d \<notin> set after)
        \<longrightarrow> number \<notin> set (keys (scannedData (run (snd (processNumber number s)) after)))
          \<and> number \<notin> fst ` set (excess (report (masterList (run (snd (processNumber number s)) after))
                                     (scannedData (run (snd (processNumber number s)) after))))
          \<and> number \<notin> set (matched (report (masterList (run (snd (processNumber number s)) after))
                               (scannedData (run (snd (processNumber number s)) after))))
          \<and> number \<notin> set (keys (short (report (masterList (run (snd (processNumber number s)) after))
                                    (scannedData (run (snd (processNumber number s)) after)))))
          \<and> (number \<in> set (missing (report (masterList (run (snd (processNumber number s)) after))
                                  (scannedData (run (snd (processNumber number s)) after))))
              \<longleftrightarrow> number \<in> set (masterList s)))"
proof -
  have p: "processNumber number s = (if number = [] then Undefined else JFalse, s)"
    using assms by (rule processNumber_no_match)
  have later: "number \<notin> set (keys (scannedData (run s after)))
      \<and> number \<notin> fst ` set (excess (report (masterList (run s after)) (scannedData (run s after))))
      \<and> number \<notin> set (matched (report (masterList (run s after)) (scannedData (run s after))))
      \<and> number \<notin> set (keys (short (report (masterList (run s after)) (scannedData (run s after)))))
      \<and> (number \<in> set (missing (report (masterList (run s after)) (scannedData (run s after))))
          \<longleftrightarrow> number \<in> set (masterList s))"
    if st: "s = run initial_twocol (Upload data # before)"
      and b: "\<forall>d. Upload d \<notin> set before" and a: "\<forall>d. Upload d \<notin> set after"
  proof -
    let ?s0 = "act initial_twocol (Upload data)"
    have s: "s = run ?s0 before" by (simp add: st run_def)
    have "set (keys (scannedData ?s0)) \<subseteq> (\<lambda>item. trim (split0 item)) ` set (masterList ?s0)"
      by (simp add: initial_twocol_def keys_def)
    from run_keys [OF b this]
    have "set (keys (scannedData s)) \<subseteq> (\<lambda>item. trim (split0 item)) ` set (masterList s)"
      by (simp add: s)
    from run_keys [OF a this]
    have m: "masterList (run s after) = masterList s"
      and "set (keys (scannedData (run s after)))
        \<subseteq> (\<lambda>item. trim (split0 item)) ` set (masterList s)"
      by auto
    with rejected_not_instrument [OF assms]
    have k: "number \<notin> set (keys (scannedData (run s after)))" by auto
    have "run s after = run initial_twocol (Upload data # (before @ after))"
      by (simp add: st run_def)
    moreover from a b have "\<forall>d. Upload d \<notin> set (before @ after)" by auto
    ultimately have "missing (report (masterList (run s after)) (scannedData (run s after)))
        = masterList (run s after)"
      using twocol_nothing_matched by blast
    with m have mi: "number \<in> set (missing (report (masterList (run s after))
        (scannedData (run s after)))) \<longleftrightarrow> number \<in> set (masterList s)"
      by simp
    from report_keys_scanned [OF k, of "masterList (run s after)"] k mi
    show ?thesis by blast
  qed
  have sp: "snd (processNumber number s) = s" using p by simp
  have f1: "\<not> truthy (fst (processNumber number s))" using p by (simp add: truthy_def)
  have f2: "number \<noteq> [] \<longrightarrow> fst (processNumber number s) = JFalse" using p by simp
  from f1 f2 later show ?thesis unfolding sp by blast
qed

theorem rejected_scan_is_atomic_witness:
  "\<not> item_matches (toUpperCase (trim ''X'')) ''A,S1''
   \<and> \<lparr>masterList = [''A,S1''], scannedData = [(''A'', 1)], manualNumber = []\<rparr>
       = run initial_twocol (Upload [[''A'', ''S1'']] # [CameraScan ''a''])
   \<and> snd (processNumber ''X'' \<lparr>masterList = [''A,S1''], scannedData = [(''A'', 1)], manualNumber = []\<rparr>)
       = \<lparr>masterList = [''A,S1''], scannedData = [(''A'', 1)], manualNumber = []\<rparr>
   \<and> fst (processNumber ''X'' \<lparr>masterList = [''A,S1''], scannedData = [(''A'', 1)], manualNumber = []\<rparr>)
       = JFalse
   \<and> ''X'' \<notin> set (keys (scannedData (run (snd (processNumber ''X''
         \<lparr>masterList = [''A,S1''], scannedData = [(''A'', 1)], manualNumber = []\<rparr>)) [CameraScan ''s1''])))
   \<and> ''X'' \<notin> fst ` set (excess (report
         (masterList (run (snd (processNumber ''X''
           \<lparr>masterList = [''A,S1''], scannedData = [(''A'', 1)], manualNumber = []\<rparr>)) [CameraScan ''s1'']))
         (scannedData (run (snd (processNumber ''X''
           \<lparr>masterList = [''A,S1''], scannedData = [(''A'', 1)], manualNumber = []\<rparr>)) [CameraScan ''s1'']))))"
proof -
  let ?s = "\<lparr>masterList = [''A,S1''], scannedData = [(''A'', 1)], manualNumber = []\<rparr>"
  have m: "\<not> item_matches (toUpperCase (trim ''X'')) ''A,S1''"
    by (simp add: eval_defs)
  then have h1: "\<forall>item \<in> set (masterList ?s). \<not> item_matches (toUpperCase (trim ''X'')) item"
    by simp
  have h2: "?s = run initial_twocol (Upload [[''A'', ''S1'']] # [CameraScan ''a''])"
    by (simp add: eval_defs)
  have h3: "\<forall>d. Upload d \<notin> set [CameraScan ''a'']" by simp
  have h4: "\<forall>d. Upload d \<notin> set [CameraScan ''s1'']" by simp
  have n: "''X'' \<noteq> []" by simp
  from m h2 h3 h4 n
    rejected_scan_is_atomic [OF h1, where data = "[[''A'', ''S1'']]" and before = "[CameraScan ''a'']"
      and after = "[CameraScan ''s1'']"]
  show ?thesis by blast
qed

end
